theory Spec2Isabelle
  imports Complex_Main "HOL-Library.AList" "HOL-Library.Product_Lexorder"
begin

section \<open>Data model of \<open>script.js\<close>\<close>

text \<open>
  A GeoJSON feature is read only through \<open>feature.properties["PRI_NEIGH"]\<close> (the
  configured \<open>fields.neighborhoodName\<close>) and through its geometry.  The property is a
  JavaScript value: missing (\<open>undefined\<close>), \<open>null\<close> or a string.
\<close>

datatype jsval = JUndefined | JNull | JStr string

text \<open>JavaScript truthiness, as used by \<open>filter\<close> and by \<open>&&\<close>.\<close>

fun truthy :: "jsval \<Rightarrow> bool" where
  "truthy JUndefined = False"
| "truthy JNull = False"
| "truthy (JStr s) = (s \<noteq> [])"

text \<open>The property key a value is converted to when it indexes an object.\<close>

fun to_key :: "jsval \<Rightarrow> string" where
  "to_key JUndefined = ''undefined''"
| "to_key JNull = ''null''"
| "to_key (JStr s) = s"

record 'g feature =
  PRI_NEIGH :: jsval
  geometry :: 'g

text \<open>An uncaught exception ends the step that raises it.\<close>

datatype error = TypeError

section \<open>Region counts: \<open>processData\<close> and \<open>processCrimeCounts\<close>\<close>

text \<open>
  \<open>this.data.crimeCounts\<close> starts as the plain object \<open>{}\<close> and is used as a dictionary
  from neighbourhood names to counts.  Its own properties are modelled as an association
  list (their enumeration order is not used); the counts are natural numbers.  A plain
  object inherits from \<open>Object.prototype\<close>, which shows in two names:
  \<^item> an assignment to \<open>__proto__\<close> runs the inherited setter, which ignores a number:
    no own property is created;
  \<^item> \<open>hasOwnProperty\<close> is found on the prototype only as long as the object has no own
    property of that name; once a count is stored under \<open>hasOwnProperty\<close>, the call
    \<open>crimeCounts.hasOwnProperty(...)\<close> calls a number and throws a \<open>TypeError\<close>.
\<close>

type_synonym crimeCounts = "(string \<times> nat) list"

definition validNeighborhoods :: "'g feature list \<Rightarrow> 'g feature list" where
  "validNeighborhoods features = filter (\<lambda>feature. truthy (PRI_NEIGH feature)) features"

text \<open>\<open>counts[key] = v\<close>\<close>

definition set_property :: "crimeCounts \<Rightarrow> string \<Rightarrow> nat \<Rightarrow> crimeCounts" where
  "set_property counts key v =
     (if key = ''__proto__'' then counts else AList.update key v counts)"

text \<open>\<open>Object.prototype.hasOwnProperty\<close>, applied to the object and a key.\<close>

definition own_property :: "crimeCounts \<Rightarrow> string \<Rightarrow> bool" where
  "own_property counts key = (map_of counts key \<noteq> None)"

text \<open>The call \<open>counts.hasOwnProperty(key)\<close>, which looks the method up on the object.\<close>

definition hasOwnProperty :: "crimeCounts \<Rightarrow> string \<Rightarrow> error + bool" where
  "hasOwnProperty counts key =
     (if own_property counts ''hasOwnProperty'' then Inl TypeError
      else Inr (own_property counts key))"

text \<open>\<open>counts[key]++\<close> on an own property.\<close>

definition increment :: "crimeCounts \<Rightarrow> string \<Rightarrow> crimeCounts" where
  "increment counts key = AList.map_entry key (\<lambda>c. c + 1) counts"

text \<open>The first \<open>forEach\<close>: \<open>this.data.crimeCounts[name] = 0\<close>.\<close>

definition init_count :: "crimeCounts \<Rightarrow> 'g feature \<Rightarrow> crimeCounts" where
  "init_count counts feature = set_property counts (to_key (PRI_NEIGH feature)) 0"

text \<open>
  The body of the second \<open>forEach\<close>: the guard
  \<open>neighborhoodName && crimeCounts.hasOwnProperty(neighborhoodName)\<close> and the increment.
\<close>

definition count_crime :: "crimeCounts \<Rightarrow> 'p feature \<Rightarrow> error + crimeCounts" where
  "count_crime counts crime =
     (let neighborhoodName = PRI_NEIGH crime in
      if truthy neighborhoodName
      then (case hasOwnProperty counts (to_key neighborhoodName) of
              Inl e \<Rightarrow> Inl e
            | Inr known \<Rightarrow>
                Inr (if known then increment counts (to_key neighborhoodName) else counts))
      else Inr counts)"

text \<open>The second \<open>forEach\<close>; an exception ends it.\<close>

fun count_crimes :: "crimeCounts \<Rightarrow> 'p feature list \<Rightarrow> error + crimeCounts" where
  "count_crimes counts [] = Inr counts"
| "count_crimes counts (crime # crimes) =
     (case count_crime counts crime of
        Inl e \<Rightarrow> Inl e
      | Inr counts' \<Rightarrow> count_crimes counts' crimes)"

definition processCrimeCounts ::
  "'g feature list \<Rightarrow> 'p feature list \<Rightarrow> crimeCounts \<Rightarrow> error + crimeCounts" where
  "processCrimeCounts valid crimes counts =
     count_crimes (foldl init_count counts valid) crimes"

text \<open>
  The names of a list of regions, the points that carry a given name, the points that
  carry the name of one of the regions, and the sum of all counts.
\<close>

definition names_of :: "'g feature list \<Rightarrow> string set" where
  "names_of valid = (\<lambda>f. to_key (PRI_NEIGH f)) ` set valid"

definition labelled :: "string \<Rightarrow> 'p feature \<Rightarrow> bool" where
  "labelled key crime = (truthy (PRI_NEIGH crime) \<and> to_key (PRI_NEIGH crime) = key)"

definition assigned :: "'g feature list \<Rightarrow> 'p feature \<Rightarrow> bool" where
  "assigned valid crime =
     (truthy (PRI_NEIGH crime) \<and> to_key (PRI_NEIGH crime) \<in> names_of valid)"

definition total_count :: "crimeCounts \<Rightarrow> nat" where
  "total_count counts = sum_list (map snd counts)"

section \<open>Numbers\<close>

text \<open>
  A JavaScript number is \<open>NaN\<close>, one of the two infinities, or finite; a finite number
  is a double, named by the real it denotes.  A finite operation rounds, and may
  overflow to an infinity: its result is not computed here but taken from a parameter,
  the arithmetic \<open>fl\<close>, which gives the result of \<open>a - b\<close>, \<open>a + b\<close>, \<open>Math.pow(a, 2)\<close>
  and \<open>Math.sqrt(a)\<close> on finite arguments.  On \<open>NaN\<close> and the infinities the
  operations have the results that IEEE 754 fixes.
\<close>

datatype jsnum = NaN | NegInf | Fin real | PosInf

record arith =
  fsub :: "real \<Rightarrow> real \<Rightarrow> jsnum"
  fadd :: "real \<Rightarrow> real \<Rightarrow> jsnum"
  fpow2 :: "real \<Rightarrow> jsnum"
  fsqrt :: "real \<Rightarrow> jsnum"

fun isNaN :: "jsnum \<Rightarrow> bool" where
  "isNaN NaN = True"
| "isNaN NegInf = False"
| "isNaN (Fin a) = False"
| "isNaN PosInf = False"

fun isFinite :: "jsnum \<Rightarrow> bool" where
  "isFinite (Fin a) = True"
| "isFinite NaN = False"
| "isFinite NegInf = False"
| "isFinite PosInf = False"

text \<open>\<open>a - b\<close>\<close>

fun js_sub :: "arith \<Rightarrow> jsnum \<Rightarrow> jsnum \<Rightarrow> jsnum" where
  "js_sub fl (Fin a) (Fin b) = fsub fl a b"
| "js_sub fl (Fin a) PosInf = NegInf"
| "js_sub fl (Fin a) NegInf = PosInf"
| "js_sub fl PosInf (Fin b) = PosInf"
| "js_sub fl PosInf NegInf = PosInf"
| "js_sub fl NegInf (Fin b) = NegInf"
| "js_sub fl NegInf PosInf = NegInf"
| "js_sub fl PosInf PosInf = NaN"
| "js_sub fl NegInf NegInf = NaN"
| "js_sub fl NaN b = NaN"
| "js_sub fl a NaN = NaN"

text \<open>\<open>a + b\<close>\<close>

fun js_add :: "arith \<Rightarrow> jsnum \<Rightarrow> jsnum \<Rightarrow> jsnum" where
  "js_add fl (Fin a) (Fin b) = fadd fl a b"
| "js_add fl (Fin a) PosInf = PosInf"
| "js_add fl (Fin a) NegInf = NegInf"
| "js_add fl PosInf (Fin b) = PosInf"
| "js_add fl PosInf PosInf = PosInf"
| "js_add fl NegInf (Fin b) = NegInf"
| "js_add fl NegInf NegInf = NegInf"
| "js_add fl PosInf NegInf = NaN"
| "js_add fl NegInf PosInf = NaN"
| "js_add fl NaN b = NaN"
| "js_add fl a NaN = NaN"

text \<open>\<open>Math.pow(a, 2)\<close>\<close>

fun js_pow2 :: "arith \<Rightarrow> jsnum \<Rightarrow> jsnum" where
  "js_pow2 fl (Fin a) = fpow2 fl a"
| "js_pow2 fl PosInf = PosInf"
| "js_pow2 fl NegInf = PosInf"
| "js_pow2 fl NaN = NaN"

text \<open>\<open>Math.sqrt(a)\<close>\<close>

fun js_sqrt :: "arith \<Rightarrow> jsnum \<Rightarrow> jsnum" where
  "js_sqrt fl (Fin a) = fsqrt fl a"
| "js_sqrt fl PosInf = PosInf"
| "js_sqrt fl NegInf = NaN"
| "js_sqrt fl NaN = NaN"

text \<open>\<open>a > 0\<close>, \<open>a < b\<close> and \<open>a >= 0\<close>; each is false when an argument is \<open>NaN\<close>.\<close>

fun js_positive :: "jsnum \<Rightarrow> bool" where
  "js_positive (Fin a) = (0 < a)"
| "js_positive PosInf = True"
| "js_positive NegInf = False"
| "js_positive NaN = False"

fun js_less :: "jsnum \<Rightarrow> jsnum \<Rightarrow> bool" where
  "js_less (Fin a) (Fin b) = (a < b)"
| "js_less (Fin a) PosInf = True"
| "js_less NegInf (Fin b) = True"
| "js_less NegInf PosInf = True"
| "js_less a b = False"

fun nonneg :: "jsnum \<Rightarrow> bool" where
  "nonneg (Fin a) = (0 \<le> a)"
| "nonneg PosInf = True"
| "nonneg NegInf = False"
| "nonneg NaN = False"

text \<open>
  What the results use of the arithmetic of doubles, in every implementation of
  IEEE 754: the difference of two doubles is not \<open>NaN\<close> and is positive exactly when the
  first is the greater (with gradual underflow a difference of different doubles does
  not round to zero); a square, the sum of two non-negative doubles and the square root
  of a non-negative double are non-negative or \<open>+Infinity\<close>.
\<close>

definition ieee_arith :: "arith \<Rightarrow> bool" where
  "ieee_arith fl =
     ((\<forall>a b. js_positive (fsub fl a b) = (b < a)) \<and>
      (\<forall>a b. \<not> isNaN (fsub fl a b)) \<and>
      (\<forall>a. nonneg (fpow2 fl a)) \<and>
      (\<forall>a b. 0 \<le> a \<longrightarrow> 0 \<le> b \<longrightarrow> nonneg (fadd fl a b)) \<and>
      (\<forall>a. 0 \<le> a \<longrightarrow> nonneg (fsqrt fl a)))"

text \<open>
  The arithmetic without rounding, for the examples: on their inputs every intermediate
  result is a small integer, which the arithmetic of doubles computes exactly.
\<close>

definition exact_arith :: arith where
  "exact_arith =
     \<lparr>fsub = (\<lambda>a b. Fin (a - b)), fadd = (\<lambda>a b. Fin (a + b)), fpow2 = (\<lambda>a. Fin (a * a)),
      fsqrt = (\<lambda>a. if a < 0 then NaN else Fin (sqrt a))\<rparr>"

text \<open>
  \<open>Array.prototype.sort\<close> with a comparator.  The comparator's result \<open>v\<close> puts its
  first argument after its second when \<open>v > 0\<close>; a \<open>NaN\<close> result is read as \<open>0\<close>.
  The sort is stable (ECMAScript 2019), so for a comparator that is a consistent
  ordering the result is the one of a stable insertion sort, which is the model.
\<close>

fun js_insert :: "('a \<Rightarrow> 'a \<Rightarrow> jsnum) \<Rightarrow> 'a \<Rightarrow> 'a list \<Rightarrow> 'a list" where
  "js_insert cmp x [] = [x]"
| "js_insert cmp x (y # ys) =
     (if js_positive (cmp x y) then y # js_insert cmp x ys else x # y # ys)"

definition js_sort :: "('a \<Rightarrow> 'a \<Rightarrow> jsnum) \<Rightarrow> 'a list \<Rightarrow> 'a list" where
  "js_sort cmp xs = foldr (js_insert cmp) xs []"

section \<open>Centroids: \<open>calculateCentroids\<close>\<close>

text \<open>
  \<open>this.pathGenerator.centroid\<close> belongs to the D3 library; it is a parameter
  \<open>centroidOf\<close> of the model, giving a pair of numbers for a feature.
\<close>

record 'g centroid =
  name :: jsval
  coords :: "jsnum \<times> jsnum"
  feature :: "'g feature"

definition calculateCentroids ::
  "('g feature \<Rightarrow> jsnum \<times> jsnum) \<Rightarrow> 'g feature list \<Rightarrow> 'g centroid list" where
  "calculateCentroids centroidOf valid =
     filter (\<lambda>d. \<not> isNaN (fst (coords d)) \<and> \<not> isNaN (snd (coords d)))
       (map (\<lambda>feature. \<lparr>name = PRI_NEIGH feature, coords = centroidOf feature,
                         feature = feature\<rparr>) valid)"

section \<open>The graph: \<open>calculateKNN\<close>\<close>

definition distance :: "arith \<Rightarrow> jsnum \<times> jsnum \<Rightarrow> jsnum \<times> jsnum \<Rightarrow> jsnum" where
  "distance fl p1 p2 =
     js_sqrt fl (js_add fl (js_pow2 fl (js_sub fl (fst p1) (fst p2)))
                           (js_pow2 fl (js_sub fl (snd p1) (snd p2))))"

text \<open>
  An entry \<open>{index, dist}\<close> of the array \<open>distances\<close> is a pair.  A centroid object is
  identified by its position in \<open>this.data.centroids\<close>: \<open>calculateCentroids\<close> creates one
  fresh object per position, so \<open>===\<close> on two centroids is equality of their positions.
  A link \<open>{source, target}\<close> is the pair of the positions of its two centroids.  The
  field \<open>dist\<close> is written \<open>dist_entry\<close>, since \<open>dist\<close> is the library's metric.
\<close>

type_synonym entry = "nat \<times> jsnum"

abbreviation index :: "entry \<Rightarrow> nat" where
  "index \<equiv> fst"

abbreviation dist_entry :: "entry \<Rightarrow> jsnum" where
  "dist_entry \<equiv> snd"

type_synonym link = "nat \<times> nat"

abbreviation source :: "link \<Rightarrow> nat" where
  "source \<equiv> fst"

abbreviation target :: "link \<Rightarrow> nat" where
  "target \<equiv> snd"

text \<open>
  The callback of \<open>map\<close>, for \<open>center1\<close> at position \<open>i\<close> and \<open>center2\<close> at position
  \<open>j\<close>, and the mapped array before it is sorted.
\<close>

definition entry_of :: "arith \<Rightarrow> 'g centroid list \<Rightarrow> nat \<Rightarrow> nat \<Rightarrow> entry" where
  "entry_of fl centroids i j =
     (j, if i = j then PosInf else distance fl (coords (centroids ! i)) (coords (centroids ! j)))"

definition entries :: "arith \<Rightarrow> 'g centroid list \<Rightarrow> nat \<Rightarrow> entry list" where
  "entries fl centroids i = map (entry_of fl centroids i) [0..<length centroids]"

definition distances :: "arith \<Rightarrow> 'g centroid list \<Rightarrow> nat \<Rightarrow> entry list" where
  "distances fl centroids i =
     js_sort (\<lambda>a b. js_sub fl (dist_entry a) (dist_entry b)) (entries fl centroids i)"

definition link_exists :: "link list \<Rightarrow> nat \<Rightarrow> nat \<Rightarrow> bool" where
  "link_exists links center1 neighbor =
     list_ex (\<lambda>link. (source link = center1 \<and> target link = neighbor) \<or>
                     (source link = neighbor \<and> target link = center1)) links"

definition add_link :: "nat \<Rightarrow> link list \<Rightarrow> nat \<Rightarrow> link list" where
  "add_link center1 links neighbor =
     (if \<not> link_exists links center1 neighbor then links @ [(center1, neighbor)] else links)"

text \<open>
  The \<open>for\<close> loop over \<open>k = 0, 1, ...\<close> while \<open>k < this.config.knn.k\<close> and
  \<open>k < distances.length\<close>; \<open>K\<close> is \<open>this.config.knn.k\<close>.
\<close>

definition knn_of_center ::
  "arith \<Rightarrow> nat \<Rightarrow> 'g centroid list \<Rightarrow> link list \<Rightarrow> nat \<Rightarrow> link list" where
  "knn_of_center fl K centroids links i =
     (let ds = distances fl centroids i in
      foldl (\<lambda>links k. add_link i links (index (ds ! k))) links [0..<min K (length ds)])"

text \<open>The outer \<open>forEach\<close>; \<open>links\<close> is \<open>this.data.knnLinks\<close>, the empty array at the call.\<close>

definition calculateKNN :: "arith \<Rightarrow> nat \<Rightarrow> 'g centroid list \<Rightarrow> link list \<Rightarrow> link list" where
  "calculateKNN fl K centroids links =
     foldl (knn_of_center fl K centroids) links [0..<length centroids]"

text \<open>The positions that the loop of centroid \<open>i\<close> visits: its selected neighbours.\<close>

definition selected :: "arith \<Rightarrow> nat \<Rightarrow> 'g centroid list \<Rightarrow> nat \<Rightarrow> nat list" where
  "selected fl K centroids i = map index (take K (distances fl centroids i))"

text \<open>Two links join the same unordered pair when one is the other, possibly reversed.\<close>

definition linked :: "link list \<Rightarrow> nat \<Rightarrow> nat \<Rightarrow> bool" where
  "linked links a b = ((a, b) \<in> set links \<or> (b, a) \<in> set links)"

text \<open>
  No link is listed twice, and no link is listed together with its reverse.
\<close>

definition no_duplicate_pairs :: "link list \<Rightarrow> bool" where
  "no_duplicate_pairs links =
     (distinct links \<and>
      (\<forall>l \<in> set links. source l \<noteq> target l \<longrightarrow> (target l, source l) \<notin> set links))"

text \<open>The numbers \<open>Infinity\<close> and \<open>NaN\<close>, and a centroid set without \<open>NaN\<close> coordinates.\<close>

fun inf_or_nan :: "jsnum \<Rightarrow> bool" where
  "inf_or_nan PosInf = True"
| "inf_or_nan NaN = True"
| "inf_or_nan (Fin a) = False"
| "inf_or_nan NegInf = False"

definition no_nan_coords :: "'g centroid list \<Rightarrow> bool" where
  "no_nan_coords cs = (\<forall>c \<in> set cs. \<not> isNaN (fst (coords c)) \<and> \<not> isNaN (snd (coords c)))"

section \<open>The order of the candidates in the words of the specification\<close>

text \<open>
  An entry precedes another when its distance is the smaller, or when neither distance
  is smaller than the other (an exact tie for the comparator) and its position in the
  input is the smaller.
\<close>

definition precedes :: "entry \<Rightarrow> entry \<Rightarrow> bool" where
  "precedes a b =
     (js_less (dist_entry a) (dist_entry b) \<or>
      \<not> js_less (dist_entry b) (dist_entry a) \<and> index a < index b)"

text \<open>
  The numbers other than \<open>NaN\<close> are linearly ordered; \<open>rank\<close> embeds them in that
  order into pairs ordered lexicographically, and \<open>order_key\<close> adds the position of an
  entry as the last component.
\<close>

fun rank :: "jsnum \<Rightarrow> nat \<times> real" where
  "rank NegInf = (0, 0)"
| "rank (Fin a) = (1, a)"
| "rank PosInf = (2, 0)"
| "rank NaN = (3, 0)"

definition order_key :: "entry \<Rightarrow> (nat \<times> real) \<times> nat" where
  "order_key e = (rank (dist_entry e), index e)"

text \<open>
  The \<open>k\<close> nearest other centroids of a centroid \<open>c\<close>: the centroids other than \<open>c\<close>, in
  ascending order of their computed distance from \<open>c\<close> and, at the same distance, of
  their positions, cut after the first \<open>k\<close>.
\<close>

definition others :: "'g centroid list \<Rightarrow> nat \<Rightarrow> nat list" where
  "others centroids c = filter (\<lambda>j. j \<noteq> c) [0..<length centroids]"

definition nearest_others :: "arith \<Rightarrow> nat \<Rightarrow> 'g centroid list \<Rightarrow> nat \<Rightarrow> nat list" where
  "nearest_others fl K centroids c =
     take K (sort_key (\<lambda>j. (rank (distance fl (coords (centroids ! c)) (coords (centroids ! j))), j))
               (others centroids c))"

section \<open>The spatial join in the words of the specification\<close>

text \<open>
  Modelled from the spec: the Region Polygon record (section 3) of the spatial join,
  which \<open>script.js\<close> does not contain (it reads the label that the join has attached to
  each point).  \<open>ident\<close> is the region identifier.
\<close>

record 'r polygon =
  ident :: string
  rings :: 'r

text \<open>
  Modelled from the spec: the Point Record (section 3), with its optional region
  identifier.
\<close>

record ('c, 'm) point_record =
  coordinate :: 'c
  metadata :: 'm
  regionId :: "string option"

text \<open>
  Modelled from the spec: a polygon is valid when its identifier is not empty
  (sections 3 and 4.2).
\<close>

definition valid_polygon :: "'r polygon \<Rightarrow> bool" where
  "valid_polygon poly = (ident poly \<noteq> [])"

text \<open>
  Modelled from the spec: the containment loop of \<open>assignRegions\<close> (section 4.2), which
  tests the projected point against the valid polygons in input order and stops at the
  first that contains it.  The containment test \<open>pointInPolygon\<close> of the Geometry
  Utilities is a parameter.
\<close>

fun first_containing :: "('p \<Rightarrow> 'r polygon \<Rightarrow> bool) \<Rightarrow> 'p \<Rightarrow> 'r polygon list \<Rightarrow> string option" where
  "first_containing pointInPolygon q [] = None"
| "first_containing pointInPolygon q (poly # polygons) =
     (if valid_polygon poly \<and> pointInPolygon q poly then Some (ident poly)
      else first_containing pointInPolygon q polygons)"

text \<open>
  Modelled from the spec: the label that \<open>assignRegions\<close> (section 4.2) gives one point;
  \<open>project\<close> of the Geometry Utilities, with the run's projection parameters fixed, is a
  parameter.
\<close>

definition assignRegion ::
  "('c \<Rightarrow> 'p) \<Rightarrow> ('p \<Rightarrow> 'r polygon \<Rightarrow> bool) \<Rightarrow> 'r polygon list \<Rightarrow>
   ('c, 'm) point_record \<Rightarrow> ('c, 'm) point_record" where
  "assignRegion project pointInPolygon polygons pt =
     pt\<lparr>regionId := first_containing pointInPolygon (project (coordinate pt)) polygons\<rparr>"

text \<open>Modelled from the spec: \<open>assignRegions(points, polygons)\<close> (section 4.2).\<close>

definition assignRegions ::
  "('c \<Rightarrow> 'p) \<Rightarrow> ('p \<Rightarrow> 'r polygon \<Rightarrow> bool) \<Rightarrow> ('c, 'm) point_record list \<Rightarrow>
   'r polygon list \<Rightarrow> ('c, 'm) point_record list" where
  "assignRegions project pointInPolygon points polygons =
     map (assignRegion project pointInPolygon polygons) points"

section \<open>Example inputs\<close>

definition region :: "string \<Rightarrow> unit feature" where
  "region n = \<lparr>PRI_NEIGH = JStr n, geometry = ()\<rparr>"

definition centroid_at :: "real \<Rightarrow> real \<Rightarrow> unit centroid" where
  "centroid_at x y = \<lparr>name = JStr ''region'', coords = (Fin x, Fin y),
             feature = \<lparr>PRI_NEIGH = JStr ''region'', geometry = ()\<rparr>\<rparr>"

definition point_feature :: "string \<Rightarrow> jsnum \<Rightarrow> jsnum \<Rightarrow> (jsnum \<times> jsnum) feature" where
  "point_feature n x y = \<lparr>PRI_NEIGH = JStr n, geometry = (x, y)\<rparr>"

text \<open>A containment test for the examples: the open rectangle from \<open>(x0, y0)\<close> to \<open>(x1, y1)\<close>.\<close>

definition in_box :: "real \<times> real \<Rightarrow> (real \<times> real \<times> real \<times> real) polygon \<Rightarrow> bool" where
  "in_box q poly =
     (case rings poly of (x0, y0, x1, y1) \<Rightarrow> x0 < fst q \<and> fst q < x1 \<and> y0 < snd q \<and> snd q < y1)"

section \<open>Properties of the region counts\<close>

subsection \<open>Names that a plain object treats specially\<close>

text \<open>
  C6.  A valid region named \<open>__proto__\<close> gets no entry in the count mapping, and the
  point that carries its name is not counted; with a valid region named
  \<open>hasOwnProperty\<close> the counting step throws at the first point with a truthy name.
\<close>

theorem special_names_break_region_counts:
  "processCrimeCounts (validNeighborhoods [region ''__proto__'', region ''Loop''])
       [region ''__proto__'', region ''Loop''] [] = Inr [(''Loop'', 1)] \<and>
   processCrimeCounts (validNeighborhoods [region ''hasOwnProperty''])
       [region ''Loop''] [] = Inl TypeError"
  by (simp add: processCrimeCounts_def validNeighborhoods_def region_def init_count_def
      set_property_def count_crime_def hasOwnProperty_def own_property_def increment_def)

text \<open>
  C7.  With valid regions \<open>hasOwnProperty\<close> and \<open>Loop\<close> and two points in \<open>Loop\<close>, the
  counting step throws and leaves no counts to add up.  With the one valid region
  \<open>__proto__\<close> and one point in it, the counts add up to 0 and no point is without the
  name of a valid region, against 1 point.
\<close>

theorem special_names_break_count_total:
  "processCrimeCounts [region ''hasOwnProperty'', region ''Loop'']
       [region ''Loop'', region ''Loop''] [] = Inl TypeError \<and>
   processCrimeCounts [region ''__proto__''] [region ''__proto__''] [] = Inr [] \<and>
   total_count [] = 0 \<and>
   filter (\<lambda>crime. \<not> assigned [region ''__proto__''] crime) [region ''__proto__''] = []"
  by (simp add: processCrimeCounts_def region_def init_count_def set_property_def
      count_crime_def hasOwnProperty_def own_property_def increment_def total_count_def
      assigned_def names_of_def)

subsection \<open>Other names\<close>

text \<open>
  When no region is named \<open>hasOwnProperty\<close> the counting step returns, and the mapping
  has an entry exactly for the names of the regions other than \<open>__proto__\<close>, holding the
  number of points that carry the name.
\<close>

lemma map_of_set_property:
  "map_of (set_property counts k v) key =
     (if key = k \<and> k \<noteq> ''__proto__'' then Some v else map_of counts key)"
  by (simp add: set_property_def update_conv')

lemma map_of_init:
  "map_of (foldl init_count counts valid) key =
     (if key \<in> names_of valid \<and> key \<noteq> ''__proto__'' then Some 0 else map_of counts key)"
proof (induction valid arbitrary: counts)
  case Nil
  show ?case by (simp add: names_of_def)
next
  case (Cons f valid)
  have "map_of (init_count counts f) key =
      (if key = to_key (PRI_NEIGH f) \<and> key \<noteq> ''__proto__'' then Some 0 else map_of counts key)"
    by (auto simp: init_count_def map_of_set_property)
  then show ?case
    by (auto simp: Cons.IH names_of_def)
qed

lemma map_of_increment:
  "map_of (increment counts k) key =
     (case map_of counts key of
        None \<Rightarrow> None
      | Some c \<Rightarrow> Some (if key = k then c + 1 else c))"
  by (simp add: increment_def map_of_map_entry split: option.splits)

lemma count_crime_ordinary:
  assumes "\<not> own_property counts ''hasOwnProperty''"
  shows "\<exists>counts'. count_crime counts crime = Inr counts' \<and>
     (\<forall>key. map_of counts' key =
        (case map_of counts key of
           None \<Rightarrow> None
         | Some c \<Rightarrow> Some (if labelled key crime then c + 1 else c)))"
  using assms
  by (auto simp: count_crime_def hasOwnProperty_def Let_def labelled_def own_property_def
      map_of_increment split: option.splits)

lemma count_crimes_ordinary:
  assumes "\<not> own_property counts ''hasOwnProperty''"
  shows "\<exists>counts'. count_crimes counts crimes = Inr counts' \<and>
     (\<forall>key. map_of counts' key =
        (case map_of counts key of
           None \<Rightarrow> None
         | Some c \<Rightarrow> Some (c + length (filter (labelled key) crimes))))"
  using assms
proof (induction crimes arbitrary: counts)
  case Nil
  show ?case by (simp split: option.splits)
next
  case (Cons crime crimes)
  from count_crime_ordinary [OF Cons.prems, of crime]
  obtain c1 where c1: "count_crime counts crime = Inr c1"
    "\<forall>key. map_of c1 key =
        (case map_of counts key of
           None \<Rightarrow> None
         | Some c \<Rightarrow> Some (if labelled key crime then c + 1 else c))"
    by blast
  from c1(2) Cons.prems have "\<not> own_property c1 ''hasOwnProperty''"
    by (simp add: own_property_def)
  from Cons.IH [OF this]
  obtain c2 where c2: "count_crimes c1 crimes = Inr c2"
    "\<forall>key. map_of c2 key =
        (case map_of c1 key of
           None \<Rightarrow> None
         | Some c \<Rightarrow> Some (c + length (filter (labelled key) crimes)))"
    by blast
  have "\<forall>key. map_of c2 key =
        (case map_of counts key of
           None \<Rightarrow> None
         | Some c \<Rightarrow> Some (c + length (filter (labelled key) (crime # crimes))))"
    by (simp add: c1(2) c2(2) split: option.splits)
  with c1(1) c2(1) show ?case by simp
qed

lemma region_counts_of_ordinary_names:
  assumes "''hasOwnProperty'' \<notin> names_of valid"
  shows "\<exists>counts. processCrimeCounts valid crimes [] = Inr counts \<and>
     (\<forall>key. map_of counts key =
        (if key \<in> names_of valid \<and> key \<noteq> ''__proto__''
         then Some (length (filter (labelled key) crimes)) else None))"
proof -
  have "\<not> own_property (foldl init_count [] valid) ''hasOwnProperty''"
    using assms by (simp add: own_property_def map_of_init)
  from count_crimes_ordinary [OF this, of crimes]
  show ?thesis
    by (auto simp: processCrimeCounts_def map_of_init)
qed

text \<open>
  When moreover no region is named \<open>__proto__\<close>, the counts and the points that carry
  no region's name add up to the number of points.
\<close>

lemma keys_increment: "map fst (increment counts k) = map fst counts"
  unfolding increment_def by (induction counts) auto

lemma total_increment:
  "distinct (map fst counts) \<Longrightarrow> k \<in> fst ` set counts \<Longrightarrow>
   total_count (increment counts k) = total_count counts + 1"
  unfolding increment_def total_count_def by (induction counts) (auto simp: rev_image_eqI)

lemma own_property_keys: "own_property counts key \<longleftrightarrow> key \<in> fst ` set counts"
  by (simp add: own_property_def map_of_eq_None_iff)

lemma count_crime_total:
  assumes "\<not> own_property counts ''hasOwnProperty''" and "distinct (map fst counts)"
  shows "\<exists>counts'. count_crime counts crime = Inr counts' \<and> map fst counts' = map fst counts \<and>
     total_count counts' = total_count counts +
       (if truthy (PRI_NEIGH crime) \<and> to_key (PRI_NEIGH crime) \<in> fst ` set counts then 1 else 0)"
  using assms
  by (auto simp: count_crime_def hasOwnProperty_def Let_def keys_increment total_increment
      own_property_keys)

lemma count_crimes_total:
  assumes "\<not> own_property counts ''hasOwnProperty''" and "distinct (map fst counts)"
  shows "\<exists>counts'. count_crimes counts crimes = Inr counts' \<and>
     total_count counts' = total_count counts +
       length (filter (\<lambda>crime. truthy (PRI_NEIGH crime) \<and>
                 to_key (PRI_NEIGH crime) \<in> fst ` set counts) crimes)"
  using assms
proof (induction crimes arbitrary: counts)
  case Nil
  show ?case by simp
next
  case (Cons crime crimes)
  from count_crime_total [OF Cons.prems, of crime]
  obtain c1 where c1: "count_crime counts crime = Inr c1" "map fst c1 = map fst counts"
    "total_count c1 = total_count counts +
       (if truthy (PRI_NEIGH crime) \<and> to_key (PRI_NEIGH crime) \<in> fst ` set counts then 1 else 0)"
    by blast
  have keys: "fst ` set c1 = fst ` set counts"
    using c1(2) by (metis set_map)
  have "\<not> own_property c1 ''hasOwnProperty''" "distinct (map fst c1)"
    using Cons.prems c1(2) by (simp_all add: own_property_keys keys)
  from Cons.IH [OF this]
  obtain c2 where c2: "count_crimes c1 crimes = Inr c2"
    "total_count c2 = total_count c1 +
       length (filter (\<lambda>crime. truthy (PRI_NEIGH crime) \<and>
                 to_key (PRI_NEIGH crime) \<in> fst ` set c1) crimes)"
    by blast
  from c1(1,3) c2 show ?case
    by (simp add: keys)
qed

lemma keys_init:
  "fst ` set (foldl init_count counts valid) =
     fst ` set counts \<union> (names_of valid - {''__proto__''})"
proof (induction valid arbitrary: counts)
  case Nil
  show ?case by (simp add: names_of_def)
next
  case (Cons f valid)
  have "fst ` set (init_count counts f) =
      fst ` set counts \<union> ({to_key (PRI_NEIGH f)} - {''__proto__''})"
    by (auto simp: init_count_def set_property_def dom_update)
  then show ?case
    by (auto simp: Cons.IH names_of_def)
qed

lemma distinct_init:
  "distinct (map fst counts) \<Longrightarrow> distinct (map fst (foldl init_count counts valid))"
proof (induction valid arbitrary: counts)
  case Nil
  then show ?case by simp
next
  case (Cons f valid)
  have "distinct (map fst (init_count counts f))"
    using Cons.prems by (simp add: init_count_def set_property_def distinct_update)
  then show ?case by (simp add: Cons.IH)
qed

lemma total_update_zero: "total_count (AList.update k 0 al) \<le> total_count al"
  by (induction al) (auto simp: total_count_def)

lemma total_init: "total_count counts = 0 \<Longrightarrow> total_count (foldl init_count counts valid) = 0"
proof (induction valid arbitrary: counts)
  case Nil
  then show ?case by simp
next
  case (Cons f valid)
  have "total_count (init_count counts f) \<le> total_count counts"
    by (simp add: init_count_def set_property_def total_update_zero)
  with Cons.prems have "total_count (init_count counts f) = 0" by simp
  then show ?case by (simp add: Cons.IH)
qed

lemma count_total_of_ordinary_names:
  assumes "''hasOwnProperty'' \<notin> names_of valid" and "''__proto__'' \<notin> names_of valid"
  shows "\<exists>counts. processCrimeCounts valid crimes [] = Inr counts \<and>
     total_count counts + length (filter (\<lambda>crime. \<not> assigned valid crime) crimes) =
       length crimes"
proof -
  let ?init = "foldl init_count [] valid"
  have keys: "fst ` set ?init = names_of valid"
    using assms(2) by (simp add: keys_init)
  have "\<not> own_property ?init ''hasOwnProperty''"
    using assms(1) by (simp add: own_property_keys keys)
  moreover have "distinct (map fst ?init)"
    by (rule distinct_init) simp
  ultimately obtain counts where c: "count_crimes ?init crimes = Inr counts"
    "total_count counts = total_count ?init +
       length (filter (\<lambda>crime. truthy (PRI_NEIGH crime) \<and>
                 to_key (PRI_NEIGH crime) \<in> fst ` set ?init) crimes)"
    using count_crimes_total [of ?init crimes] by blast
  have "total_count ?init = 0"
    by (rule total_init) (simp add: total_count_def)
  moreover have "assigned valid = (\<lambda>crime::'b feature. truthy (PRI_NEIGH crime) \<and>
      to_key (PRI_NEIGH crime) \<in> names_of valid)"
    by (intro ext) (simp add: assigned_def)
  ultimately have "total_count counts = length (filter (assigned valid) crimes)"
    using c(2) by (simp add: keys)
  with c(1) show ?thesis
    by (simp add: processCrimeCounts_def sum_length_filter_compl)
qed

subsection \<open>Falsy names\<close>

lemma count_crimes_append:
  "count_crimes counts (xs @ ys) =
     (case count_crimes counts xs of Inl e \<Rightarrow> Inl e | Inr counts' \<Rightarrow> count_crimes counts' ys)"
  by (induction xs arbitrary: counts) (simp_all split: sum.splits)

text \<open>
  C9.  A point record whose name is falsy (the empty string, \<open>null\<close> or \<open>undefined\<close>)
  leaves every count as it is and raises nothing, whatever the mapping holds, also when
  the mapping has an entry under the empty string or under \<open>"null"\<close> or \<open>"undefined"\<close>;
  the whole counting step gives the same result with and without such a record.
\<close>

theorem falsy_name_never_counted:
  "\<not> truthy (PRI_NEIGH crime) \<Longrightarrow>
   count_crime counts crime = Inr counts \<and>
   processCrimeCounts valid (before @ crime # after) counts =
     processCrimeCounts valid (before @ after) counts"
  by (simp add: count_crime_def processCrimeCounts_def Let_def count_crimes_append
      split: sum.splits)

theorem falsy_name_never_counted_witness:
  "count_crime [([], 7), (''null'', 1)] \<lparr>PRI_NEIGH = JStr [], geometry = ()\<rparr> =
     Inr [([], 7), (''null'', 1)] \<and>
   count_crime [([], 7), (''null'', 1)] \<lparr>PRI_NEIGH = JNull, geometry = ()\<rparr> =
     Inr [([], 7), (''null'', 1)] \<and>
   count_crime [([], 7), (''null'', 1)] \<lparr>PRI_NEIGH = JStr ''null'', geometry = ()\<rparr> =
     Inr [([], 7), (''null'', 2)]"
  using falsy_name_never_counted
    [of "\<lparr>PRI_NEIGH = JStr [], geometry = ()\<rparr>" "[([], 7), (''null'', 1)]" "[]" "[]" "[]"]
    falsy_name_never_counted
    [of "\<lparr>PRI_NEIGH = JNull, geometry = ()\<rparr>" "[([], 7), (''null'', 1)]" "[]" "[]" "[]"]
  by (simp add: count_crime_def hasOwnProperty_def own_property_def increment_def)

section \<open>Properties of the centroid extractor\<close>

text \<open>
  C5, as claimed, fails: the filter of \<open>calculateCentroids\<close> tests \<open>isNaN\<close> only, so a
  centroid with an infinite coordinate stays in the centroid set.
\<close>

theorem infinite_centroid_kept:
  "calculateCentroids geometry [point_feature ''A'' PosInf (Fin 0)] =
     [\<lparr>name = JStr ''A'', coords = (PosInf, Fin 0),
       feature = point_feature ''A'' PosInf (Fin 0)\<rparr>] \<and>
   \<not> isFinite (fst (coords (hd (calculateCentroids geometry [point_feature ''A'' PosInf (Fin 0)]))))"
  by (simp add: calculateCentroids_def point_feature_def)

text \<open>
  C5, amended.  The centroid set holds, in input order, one centroid for each valid
  polygon whose computed centroid has no \<open>NaN\<close> coordinate, with that polygon's name and
  computed coordinates, and for no other polygon; so no coordinate of the centroid set
  is \<open>NaN\<close>.
\<close>

theorem centroids_exclude_exactly_nan:
  "map feature (calculateCentroids centroidOf valid) =
     filter (\<lambda>f. \<not> isNaN (fst (centroidOf f)) \<and> \<not> isNaN (snd (centroidOf f))) valid \<and>
   (\<forall>d \<in> set (calculateCentroids centroidOf valid).
      name d = PRI_NEIGH (feature d) \<and> coords d = centroidOf (feature d) \<and>
      \<not> isNaN (fst (coords d)) \<and> \<not> isNaN (snd (coords d)))"
  by (induction valid) (auto simp: calculateCentroids_def)

theorem centroids_exclude_exactly_nan_witness:
  "map feature (calculateCentroids geometry
       [point_feature ''A'' (Fin 1) (Fin 2), point_feature ''B'' (Fin 1) NaN,
        point_feature ''C'' NegInf (Fin 3)]) =
     [point_feature ''A'' (Fin 1) (Fin 2), point_feature ''C'' NegInf (Fin 3)]"
  using centroids_exclude_exactly_nan
    [of geometry "[point_feature ''A'' (Fin 1) (Fin 2), point_feature ''B'' (Fin 1) NaN,
        point_feature ''C'' NegInf (Fin 3)]"]
  by (simp add: point_feature_def)

text \<open>No centroid of the centroid set has a \<open>NaN\<close> coordinate.\<close>

lemma centroids_not_nan:
  "c \<in> set (calculateCentroids centroidOf valid) \<Longrightarrow>
   \<not> isNaN (fst (coords c)) \<and> \<not> isNaN (snd (coords c))"
  by (simp add: calculateCentroids_def)

section \<open>Properties of the arithmetic\<close>

lemma ieee_exact: "ieee_arith exact_arith"
  by (simp add: ieee_arith_def exact_arith_def)

lemma rank_eq_iff: "rank a = rank b \<longleftrightarrow> a = b"
  by (cases a; cases b) auto

lemma js_less_rank: "\<not> isNaN a \<Longrightarrow> \<not> isNaN b \<Longrightarrow> js_less a b \<longleftrightarrow> rank a < rank b"
  by (cases a; cases b) auto

lemma positive_sub_rank:
  "ieee_arith fl \<Longrightarrow> \<not> isNaN a \<Longrightarrow> \<not> isNaN b \<Longrightarrow>
   js_positive (js_sub fl a b) \<longleftrightarrow> rank b < rank a"
  by (cases a; cases b) (auto simp: ieee_arith_def)

lemma sub_not_nan:
  "ieee_arith fl \<Longrightarrow> isFinite a \<Longrightarrow> \<not> isNaN b \<Longrightarrow> \<not> isNaN (js_sub fl a b)"
  by (cases a; cases b) (auto simp: ieee_arith_def)

lemma pow2_nonneg: "ieee_arith fl \<Longrightarrow> \<not> isNaN v \<Longrightarrow> nonneg (js_pow2 fl v)"
  by (cases v) (auto simp: ieee_arith_def)

lemma add_nonneg: "ieee_arith fl \<Longrightarrow> nonneg a \<Longrightarrow> nonneg b \<Longrightarrow> nonneg (js_add fl a b)"
  by (cases a; cases b) (auto simp: ieee_arith_def)

lemma sqrt_nonneg: "ieee_arith fl \<Longrightarrow> nonneg a \<Longrightarrow> nonneg (js_sqrt fl a)"
  by (cases a) (auto simp: ieee_arith_def)

lemma nonneg_not_nan: "nonneg a \<Longrightarrow> \<not> isNaN a"
  by (cases a) auto

text \<open>From a centroid with finite coordinates every computed distance is a number.\<close>

lemma distance_from_finite:
  assumes "ieee_arith fl" and "isFinite (fst p)" and "isFinite (snd p)"
    and "\<not> isNaN (fst q)" and "\<not> isNaN (snd q)"
  shows "nonneg (distance fl p q)"
  unfolding distance_def
  by (intro sqrt_nonneg add_nonneg pow2_nonneg sub_not_nan assms)

text \<open>
  From a centroid with an infinite coordinate every computed distance is \<open>Infinity\<close> or
  \<open>NaN\<close>.
\<close>

lemma sub_infinite: "\<not> isFinite a \<Longrightarrow> \<not> isFinite (js_sub fl a b)"
  by (cases a; cases b) auto

lemma pow2_infinite: "\<not> isFinite v \<Longrightarrow> inf_or_nan (js_pow2 fl v)"
  by (cases v) auto

lemma pow2_nonneg_or_nan: "ieee_arith fl \<Longrightarrow> nonneg (js_pow2 fl v) \<or> isNaN (js_pow2 fl v)"
  by (cases v) (auto simp: ieee_arith_def)

lemma add_inf_or_nan_left:
  "inf_or_nan a \<Longrightarrow> nonneg b \<or> isNaN b \<Longrightarrow> inf_or_nan (js_add fl a b)"
  by (cases a; cases b) auto

lemma add_inf_or_nan_right:
  "inf_or_nan b \<Longrightarrow> nonneg a \<or> isNaN a \<Longrightarrow> inf_or_nan (js_add fl a b)"
  by (cases a; cases b) auto

lemma sqrt_inf_or_nan: "inf_or_nan a \<Longrightarrow> inf_or_nan (js_sqrt fl a)"
  by (cases a) auto

lemma distance_from_infinite:
  assumes "ieee_arith fl" and "\<not> isFinite (fst p) \<or> \<not> isFinite (snd p)"
  shows "inf_or_nan (distance fl p q)"
proof -
  from assms(2) show ?thesis
  proof
    assume "\<not> isFinite (fst p)"
    then have "inf_or_nan (js_pow2 fl (js_sub fl (fst p) (fst q)))"
      by (intro pow2_infinite sub_infinite)
    then show ?thesis
      unfolding distance_def
      by (intro sqrt_inf_or_nan add_inf_or_nan_left pow2_nonneg_or_nan assms(1))
  next
    assume "\<not> isFinite (snd p)"
    then have "inf_or_nan (js_pow2 fl (js_sub fl (snd p) (snd q)))"
      by (intro pow2_infinite sub_infinite)
    then show ?thesis
      unfolding distance_def
      by (intro sqrt_inf_or_nan add_inf_or_nan_right pow2_nonneg_or_nan assms(1))
  qed
qed

lemma sub_inf_or_nan: "inf_or_nan a \<Longrightarrow> inf_or_nan b \<Longrightarrow> \<not> js_positive (js_sub fl a b)"
  by (cases a; cases b) auto

lemma less_inf_or_nan: "inf_or_nan a \<Longrightarrow> inf_or_nan b \<Longrightarrow> \<not> js_less a b"
  by (cases a; cases b) auto

lemma inf_or_nan_not_finite: "inf_or_nan a \<Longrightarrow> \<not> isFinite a"
  by (cases a) auto

section \<open>Properties of the sorted array of distances\<close>

lemma inj_on_order_key: "inj_on order_key A"
  by (auto simp: inj_on_def order_key_def rank_eq_iff)

lemma distinct_order_key: "distinct es \<Longrightarrow> distinct (map order_key es)"
  by (simp add: distinct_map inj_on_order_key)

lemma distinct_of_map: "distinct (map f xs) \<Longrightarrow> distinct xs"
  by (simp add: distinct_map)

lemma set_js_insert: "set (js_insert cmp x ys) = insert x (set ys)"
  by (induction ys) auto

lemma set_js_sort: "set (js_sort cmp xs) = set xs"
  by (induction xs) (simp_all add: js_sort_def set_js_insert)

lemma length_js_insert: "length (js_insert cmp x ys) = Suc (length ys)"
  by (induction ys) auto

lemma length_js_sort: "length (js_sort cmp xs) = length xs"
  by (induction xs) (simp_all add: js_sort_def length_js_insert)

lemma distinct_js_insert: "distinct (js_insert cmp x ys) \<longleftrightarrow> x \<notin> set ys \<and> distinct ys"
  by (induction ys) (auto simp: set_js_insert)

lemma distinct_js_sort: "distinct (js_sort cmp xs) = distinct xs"
  by (induction xs) (simp_all add: js_sort_def distinct_js_insert set_js_sort [unfolded js_sort_def])

text \<open>A comparator that never answers \<open>> 0\<close> leaves the array as it is.\<close>

lemma js_sort_all_ties:
  "(\<forall>x \<in> set xs. \<forall>y \<in> set xs. \<not> js_positive (cmp x y)) \<Longrightarrow> js_sort cmp xs = xs"
proof (induction xs)
  case Nil
  show ?case by (simp add: js_sort_def)
next
  case (Cons x xs)
  then have "js_sort cmp xs = xs" by simp
  then have "js_sort cmp (x # xs) = js_insert cmp x xs"
    by (simp add: js_sort_def)
  also have "\<dots> = x # xs"
    using Cons.prems by (cases xs) simp_all
  finally show ?case .
qed

text \<open>Without \<open>NaN\<close> among the distances the array comes out in the order of the keys.\<close>

lemma sorted_js_insert:
  assumes "ieee_arith fl"
    and "sorted (map order_key ys)"
    and "\<forall>y \<in> set ys. index x < index y"
    and "\<not> isNaN (dist_entry x)"
    and "\<forall>y \<in> set ys. \<not> isNaN (dist_entry y)"
  shows "sorted (map order_key (js_insert (\<lambda>a b. js_sub fl (dist_entry a) (dist_entry b)) x ys))"
  using assms(2-)
proof (induction ys)
  case Nil
  then show ?case by simp
next
  case (Cons y ys)
  let ?cmp = "\<lambda>a b. js_sub fl (dist_entry a) (dist_entry b)"
  show ?case
  proof (cases "js_positive (js_sub fl (dist_entry x) (dist_entry y))")
    case True
    with Cons.prems have lt: "rank (dist_entry y) < rank (dist_entry x)"
      by (simp add: positive_sub_rank [OF assms(1)])
    then have yx: "order_key y \<le> order_key x"
      by (simp add: order_key_def)
    have IH: "sorted (map order_key (js_insert ?cmp x ys))"
      using Cons.prems by (intro Cons.IH) simp_all
    from True IH yx Cons.prems(1) show ?thesis
      by (auto simp: set_js_insert)
  next
    case False
    with Cons.prems have "\<not> rank (dist_entry y) < rank (dist_entry x)"
      by (simp add: positive_sub_rank [OF assms(1)])
    moreover have "index x < index y" using Cons.prems by simp
    ultimately have xy: "order_key x \<le> order_key y"
      by (auto simp: order_key_def)
    from False xy Cons.prems(1) show ?thesis
      by (auto intro: order_trans)
  qed
qed

lemma sorted_js_sort:
  assumes "ieee_arith fl"
    and "sorted_wrt (<) (map index es)" and "\<forall>e \<in> set es. \<not> isNaN (dist_entry e)"
  shows "sorted (map order_key (js_sort (\<lambda>a b. js_sub fl (dist_entry a) (dist_entry b)) es))"
  using assms(2-)
proof (induction es)
  case Nil
  then show ?case by (simp add: js_sort_def)
next
  case (Cons e es)
  let ?cmp = "\<lambda>a b. js_sub fl (dist_entry a) (dist_entry b)"
  have "sorted (map order_key (js_sort ?cmp es))"
    using Cons.prems by (intro Cons.IH) simp_all
  moreover have "\<forall>y \<in> set (js_sort ?cmp es). index e < index y"
    using Cons.prems by (simp add: set_js_sort)
  ultimately have "sorted (map order_key (js_insert ?cmp e (js_sort ?cmp es)))"
    using Cons.prems by (intro sorted_js_insert [OF assms(1)]) (simp_all add: set_js_sort)
  then show ?case by (simp add: js_sort_def)
qed

lemma index_entry_of [simp]: "index (entry_of fl cs i j) = j"
  by (simp add: entry_of_def)

lemma map_index_entries: "map index (entries fl cs i) = [0..<length cs]"
  by (simp add: entries_def o_def)

lemma distinct_entries: "distinct (entries fl cs i)"
proof -
  have "distinct (map index (entries fl cs i))"
    by (simp add: map_index_entries)
  then show ?thesis by (rule distinct_of_map)
qed

lemma set_distances: "set (distances fl cs i) = entry_of fl cs i ` {0..<length cs}"
  by (simp add: distances_def set_js_sort entries_def)

lemma length_distances: "length (distances fl cs i) = length cs"
  by (simp add: distances_def length_js_sort entries_def)

lemma distinct_distances: "distinct (distances fl cs i)"
  by (simp add: distances_def distinct_js_sort distinct_entries)

lemma distinct_index_distances: "distinct (map index (distances fl cs i))"
proof -
  have "inj_on index (entry_of fl cs i ` {0..<length cs})"
    by (auto simp: inj_on_def)
  then show ?thesis
    by (simp add: distinct_map distinct_distances set_distances)
qed

lemma entries_from_finite:
  assumes "ieee_arith fl" and "no_nan_coords cs" and "i < length cs"
    and "isFinite (fst (coords (cs ! i)))" and "isFinite (snd (coords (cs ! i)))"
  shows "\<forall>e \<in> set (entries fl cs i). \<not> isNaN (dist_entry e)"
proof
  fix e assume "e \<in> set (entries fl cs i)"
  then obtain j where j: "j < length cs" "e = entry_of fl cs i j"
    by (auto simp: entries_def)
  then have "\<not> isNaN (fst (coords (cs ! j))) \<and> \<not> isNaN (snd (coords (cs ! j)))"
    using assms(2) by (simp add: no_nan_coords_def)
  then have "nonneg (distance fl (coords (cs ! i)) (coords (cs ! j)))"
    using assms by (intro distance_from_finite) simp_all
  then show "\<not> isNaN (dist_entry e)"
    by (auto simp: j(2) entry_of_def nonneg_not_nan)
qed

lemma entries_from_infinite:
  assumes "ieee_arith fl"
    and "\<not> isFinite (fst (coords (cs ! i))) \<or> \<not> isFinite (snd (coords (cs ! i)))"
  shows "\<forall>e \<in> set (entries fl cs i). inf_or_nan (dist_entry e)"
proof
  fix e assume "e \<in> set (entries fl cs i)"
  then obtain j where j: "e = entry_of fl cs i j"
    by (auto simp: entries_def)
  show "inf_or_nan (dist_entry e)"
    using distance_from_infinite [OF assms, of "coords (cs ! j)"]
    by (simp add: j entry_of_def)
qed

lemma sorted_keys_from_finite:
  assumes "ieee_arith fl" and "no_nan_coords cs" and "i < length cs"
    and "isFinite (fst (coords (cs ! i)))" and "isFinite (snd (coords (cs ! i)))"
  shows "sorted (map order_key (distances fl cs i))"
  unfolding distances_def
  using entries_from_finite [OF assms]
  by (intro sorted_js_sort [OF assms(1)]) (simp_all add: map_index_entries)

lemma order_key_precedes:
  assumes "\<not> isNaN (dist_entry a)" and "\<not> isNaN (dist_entry b)" and "order_key a < order_key b"
  shows "precedes a b"
  using assms by (auto simp: order_key_def precedes_def js_less_rank)

lemma distances_in_order:
  assumes "ieee_arith fl" and "no_nan_coords cs" and "i < length cs"
  shows "sorted_wrt precedes (distances fl cs i)"
proof (cases "isFinite (fst (coords (cs ! i))) \<and> isFinite (snd (coords (cs ! i)))")
  case True
  let ?D = "distances fl cs i"
  have "sorted (map order_key ?D)"
    using True by (intro sorted_keys_from_finite assms) simp_all
  moreover have "distinct (map order_key ?D)"
    by (intro distinct_order_key distinct_distances)
  ultimately have "sorted_wrt (<) (map order_key ?D)"
    by (simp add: strict_sorted_iff)
  then have s: "sorted_wrt (\<lambda>a b. order_key a < order_key b) ?D"
    by (simp add: sorted_wrt_map)
  have nn: "\<forall>e \<in> set ?D. \<not> isNaN (dist_entry e)"
    using entries_from_finite [OF assms] True by (simp add: distances_def set_js_sort)
  show ?thesis
    by (rule sorted_wrt_mono_rel [OF _ s]) (use nn in \<open>auto intro: order_key_precedes\<close>)
next
  case False
  then have inf: "\<not> isFinite (fst (coords (cs ! i))) \<or> \<not> isFinite (snd (coords (cs ! i)))"
    by simp
  let ?es = "entries fl cs i"
  have top: "\<forall>e \<in> set ?es. inf_or_nan (dist_entry e)"
    by (rule entries_from_infinite [OF assms(1) inf])
  then have "distances fl cs i = ?es"
    unfolding distances_def by (intro js_sort_all_ties) (simp add: sub_inf_or_nan)
  moreover have "sorted_wrt precedes ?es"
  proof -
    have "sorted_wrt (\<lambda>a b. index a < index b) ?es"
      using map_index_entries [of fl cs i]
      by (metis sorted_wrt_map sorted_wrt_upt)
    then show ?thesis
      by (rule sorted_wrt_mono_rel [rotated])
        (use top in \<open>auto simp: precedes_def less_inf_or_nan\<close>)
  qed
  ultimately show ?thesis by simp
qed

section \<open>Properties of the graph builder\<close>

subsection \<open>Links and selected neighbours\<close>

lemma take_as_nth: "take K ds = map ((!) ds) [0..<min K (length ds)]"
  by (rule nth_equalityI) simp_all

lemma knn_of_center_selected:
  "knn_of_center fl K cs links i = foldl (add_link i) links (selected fl K cs i)"
proof -
  let ?ds = "distances fl cs i"
  have "selected fl K cs i = map (\<lambda>k. index (?ds ! k)) [0..<min K (length ?ds)]"
    by (simp add: selected_def take_as_nth [of K ?ds] o_def)
  then show ?thesis
    by (simp add: knn_of_center_def Let_def foldl_map)
qed

lemma link_exists_linked: "link_exists links a b \<longleftrightarrow> linked links a b"
  by (force simp: link_exists_def linked_def list_ex_iff)





text \<open>
  The existence check keeps the edge list free of repeated unordered pairs, for every
  input.
\<close>

lemma no_duplicate_pairs_add_link:
  "no_duplicate_pairs links \<Longrightarrow> no_duplicate_pairs (add_link i links j)"
  by (auto simp: add_link_def link_exists_linked no_duplicate_pairs_def linked_def)

lemma no_duplicate_pairs_add_links:
  "no_duplicate_pairs links \<Longrightarrow> no_duplicate_pairs (foldl (add_link i) links js)"
  by (induction js arbitrary: links) (simp_all add: no_duplicate_pairs_add_link)

lemma no_duplicate_pairs_centers:
  "no_duplicate_pairs links \<Longrightarrow> no_duplicate_pairs (foldl (knn_of_center fl K cs) links centers)"
  by (induction centers arbitrary: links)
    (simp_all add: knn_of_center_selected no_duplicate_pairs_add_links)

lemma calculateKNN_no_duplicate_pairs: "no_duplicate_pairs (calculateKNN fl K cs [])"
  unfolding calculateKNN_def
  by (rule no_duplicate_pairs_centers) (simp add: no_duplicate_pairs_def)

subsection \<open>Fewer centroids than \<open>k + 1\<close>\<close>

text \<open>
  With at most \<open>k\<close> centroids the loop visits every entry of \<open>distances\<close>, the one
  of the centroid itself included.
\<close>

lemma selected_all_when_few:
  assumes "length cs \<le> K"
  shows "set (selected fl K cs i) = {0..<length cs}"
proof -
  have "selected fl K cs i = map index (distances fl cs i)"
    using assms by (simp add: selected_def length_distances)
  also have "set \<dots> = index ` entry_of fl cs i ` {0..<length cs}"
    by (simp only: set_map set_distances)
  finally show ?thesis
    by (simp add: image_image)
qed

text \<open>
  C1.  With 3 centroids and \<open>k = 5\<close> the loop runs over all 3 entries of \<open>distances\<close>,
  the last of which is the centroid itself: the edge list has a self-loop at every
  centroid.
\<close>

theorem self_loops_with_three_centroids:
  "calculateKNN exact_arith 5 [centroid_at 0 0, centroid_at 1 0, centroid_at 3 0] [] =
     [(0, 1), (0, 2), (0, 0), (1, 2), (1, 1), (2, 2)]"
  by (simp add: calculateKNN_def knn_of_center_def add_link_def link_exists_def
      distances_def entries_def entry_of_def js_sort_def distance_def centroid_at_def
      exact_arith_def Let_def)

text \<open>
  C2.  With 3 centroids and \<open>k = 5\<close> the neighbours selected for a centroid are the other
  two and the centroid itself, and the loop of the first centroid adds a link from it
  to itself.
\<close>

theorem three_centroids_select_themselves:
  "selected exact_arith 5 [centroid_at 0 0, centroid_at 1 0, centroid_at 3 0] 0 = [1, 2, 0] \<and>
   selected exact_arith 5 [centroid_at 0 0, centroid_at 1 0, centroid_at 3 0] 1 = [0, 2, 1] \<and>
   selected exact_arith 5 [centroid_at 0 0, centroid_at 1 0, centroid_at 3 0] 2 = [1, 0, 2] \<and>
   knn_of_center exact_arith 5 [centroid_at 0 0, centroid_at 1 0, centroid_at 3 0] [] 0 =
     [(0, 1), (0, 2), (0, 0)]"
  by (simp add: selected_def knn_of_center_def add_link_def link_exists_def
      distances_def entries_def entry_of_def js_sort_def distance_def centroid_at_def
      exact_arith_def Let_def)

text \<open>
  C3.  With 3 centroids and \<open>k = 5\<close> the edge list joins the first centroid with
  itself, although the first centroid is not among its own nearest other centroids,
  which are the second and the third: the edge list holds an edge that neither endpoint
  accounts for.
\<close>

theorem self_edge_outside_union:
  "linked (calculateKNN exact_arith 5 [centroid_at 0 0, centroid_at 1 0, centroid_at 3 0] []) 0 0 \<and>
   nearest_others exact_arith 5 [centroid_at 0 0, centroid_at 1 0, centroid_at 3 0] 0 = [1, 2]"
  by (simp add: linked_def calculateKNN_def knn_of_center_def add_link_def link_exists_def
      distances_def entries_def entry_of_def js_sort_def distance_def centroid_at_def
      exact_arith_def Let_def nearest_others_def others_def)

subsection \<open>Order of the candidates\<close>

lemma no_nan_calculateCentroids: "no_nan_coords (calculateCentroids centroidOf valid)"
  by (simp add: no_nan_coords_def centroids_not_nan)

text \<open>
  C8.  For every centroid \<open>i\<close> of the centroid set, the sorted array holds every centroid
  once, with the distance that the code computes for it (\<open>Infinity\<close> for \<open>i\<close> itself);
  of any two entries the earlier one has the smaller computed distance or, when neither
  distance is smaller than the other, the smaller input position; and the loop selects
  the first \<open>k\<close> entries of this array.  The array and the selection are functions of
  the input alone.
\<close>

theorem sorted_by_distance_then_index:
  assumes "ieee_arith fl" and "i < length (calculateCentroids centroidOf valid)"
  shows "set (distances fl (calculateCentroids centroidOf valid) i) =
       entry_of fl (calculateCentroids centroidOf valid) i `
         {0..<length (calculateCentroids centroidOf valid)} \<and>
     distinct (map index (distances fl (calculateCentroids centroidOf valid) i)) \<and>
     sorted_wrt precedes (distances fl (calculateCentroids centroidOf valid) i) \<and>
     knn_of_center fl K (calculateCentroids centroidOf valid) links i =
       foldl (add_link i) links
         (map index (take K (distances fl (calculateCentroids centroidOf valid) i)))"
  using distances_in_order [OF assms(1) no_nan_calculateCentroids assms(2)]
  by (simp add: set_distances distinct_index_distances knn_of_center_selected selected_def)

theorem sorted_by_distance_then_index_witness:
  "distances exact_arith
     (calculateCentroids geometry
        [point_feature ''A'' (Fin 0) (Fin 0), point_feature ''B'' (Fin 2) (Fin 0),
         point_feature ''C'' (Fin 0) (Fin 2), point_feature ''D'' (Fin 1) (Fin 0)]) 0 =
     [(3, Fin 1), (1, Fin 2), (2, Fin 2), (0, PosInf)] \<and>
   sorted_wrt precedes [(3, Fin 1), (1, Fin 2), (2, Fin 2), (0, PosInf)]"
proof -
  let ?cs = "calculateCentroids geometry
        [point_feature ''A'' (Fin 0) (Fin 0), point_feature ''B'' (Fin 2) (Fin 0),
         point_feature ''C'' (Fin 0) (Fin 2), point_feature ''D'' (Fin 1) (Fin 0)]"
  have len: "0 < length ?cs"
    by (simp add: calculateCentroids_def point_feature_def)
  have d: "distances exact_arith ?cs 0 = [(3, Fin 1), (1, Fin 2), (2, Fin 2), (0, PosInf)]"
    by (simp add: calculateCentroids_def point_feature_def distances_def entries_def
        entry_of_def js_sort_def distance_def exact_arith_def)
  from sorted_by_distance_then_index [OF ieee_exact len, of 0 "[]"] d show ?thesis
    by simp
qed

subsection \<open>Isolated centroids\<close>







subsection \<open>Self-loops with more than \<open>k\<close> centroids\<close>

text \<open>
  Every link goes from a centroid to one of its selected neighbours.  With more than
  \<open>k\<close> centroids, all at finite computed distances from each other, the entry of the
  centroid itself is the last of the sorted array and is not selected, so no link is a
  self-loop.
\<close>

lemma set_add_link: "set (add_link i links j) \<subseteq> insert (i, j) (set links)"
  by (auto simp: add_link_def)

lemma set_add_links: "set (foldl (add_link i) links js) \<subseteq> set links \<union> {i} \<times> set js"
proof (induction js arbitrary: links)
  case Nil
  show ?case by simp
next
  case (Cons j js)
  from Cons.IH [of "add_link i links j"] set_add_link [of i links j]
  show ?case by auto
qed

lemma set_centers:
  "set (foldl (knn_of_center fl K cs) links centers) \<subseteq>
   set links \<union> (\<Union>i \<in> set centers. {i} \<times> set (selected fl K cs i))"
proof (induction centers arbitrary: links)
  case Nil
  show ?case by simp
next
  case (Cons c centers)
  from Cons.IH [of "knn_of_center fl K cs links c"]
    set_add_links [of c links "selected fl K cs c"]
  show ?case by (auto simp: knn_of_center_selected)
qed

lemma link_is_selected:
  assumes "l \<in> set (calculateKNN fl K cs [])"
  shows "source l < length cs \<and> target l \<in> set (selected fl K cs (source l))"
  using set_centers [of fl K cs "[]" "[0..<length cs]"] assms
  by (auto simp: calculateKNN_def)

lemma sorted_le_last: "sorted xs \<Longrightarrow> x \<in> set xs \<Longrightarrow> x \<le> last xs"
  by (induction xs) auto

lemma own_entry_not_selected:
  assumes "ieee_arith fl" and "no_nan_coords cs" and "i < length cs" and "K < length cs"
    and "\<forall>j < length cs. j \<noteq> i \<longrightarrow> isFinite (distance fl (coords (cs ! i)) (coords (cs ! j)))"
  shows "i \<notin> set (selected fl K cs i)"
proof (cases "length cs = 1")
  case True
  with assms(4) show ?thesis by (simp add: selected_def)
next
  case False
  let ?D = "distances fl cs i"
  from False assms(3) have "(if i = 0 then 1 else 0) < length cs" "(if i = 0 then 1 else 0) \<noteq> i"
    by (cases "length cs"; auto)+
  then obtain j where j: "j < length cs" "j \<noteq> i"
    by blast
  with assms(5) have fj: "isFinite (distance fl (coords (cs ! i)) (coords (cs ! j)))"
    by simp
  have fin: "isFinite (fst (coords (cs ! i))) \<and> isFinite (snd (coords (cs ! i)))"
  proof (rule ccontr)
    assume "\<not> ?thesis"
    then have "inf_or_nan (distance fl (coords (cs ! i)) (coords (cs ! j)))"
      by (intro distance_from_infinite assms(1)) simp
    with fj show False
      by (simp add: inf_or_nan_not_finite)
  qed
  then have s: "sorted (map order_key ?D)"
    by (intro sorted_keys_from_finite assms) simp_all
  have ne: "?D \<noteq> []"
    using assms(3) length_distances [of fl cs i] by auto
  have own: "entry_of fl cs i i \<in> set ?D"
    using assms(3) by (simp add: set_distances)
  have "last ?D \<in> set ?D" using ne by simp
  then obtain n where n: "n < length cs" "last ?D = entry_of fl cs i n"
    by (auto simp: set_distances)
  have "order_key (entry_of fl cs i i) \<le> last (map order_key ?D)"
    using s own by (intro sorted_le_last) simp_all
  then have le: "order_key (entry_of fl cs i i) \<le> order_key (entry_of fl cs i n)"
    using ne by (simp add: last_map n(2))
  have "n = i"
  proof (rule ccontr)
    assume "n \<noteq> i"
    with assms(5) n(1) obtain r where "distance fl (coords (cs ! i)) (coords (cs ! n)) = Fin r"
      by (cases "distance fl (coords (cs ! i)) (coords (cs ! n))") auto
    with \<open>n \<noteq> i\<close> have "order_key (entry_of fl cs i n) = ((1, r), n)"
      by (simp add: entry_of_def order_key_def)
    moreover have "order_key (entry_of fl cs i i) = ((2, 0), i)"
      by (simp add: entry_of_def order_key_def)
    ultimately show False using le by simp
  qed
  have "distinct (map index (butlast ?D @ [last ?D]))"
    using ne distinct_index_distances [of fl cs i] by simp
  then have "index (last ?D) \<notin> index ` set (butlast ?D)"
    by auto
  then have "i \<notin> index ` set (butlast ?D)"
    by (simp add: n(2) \<open>n = i\<close>)
  moreover have "take K ?D = take K (butlast ?D)"
    using assms(4) by (simp add: take_butlast length_distances)
  then have "set (selected fl K cs i) \<subseteq> index ` set (butlast ?D)"
    by (auto simp: selected_def dest: in_set_takeD)
  ultimately show ?thesis by blast
qed

lemma no_self_loop_with_enough_centroids:
  assumes "ieee_arith fl" and "no_nan_coords cs" and "K < length cs"
    and "\<forall>i < length cs. \<forall>j < length cs. j \<noteq> i \<longrightarrow>
           isFinite (distance fl (coords (cs ! i)) (coords (cs ! j)))"
    and "l \<in> set (calculateKNN fl K cs [])"
  shows "source l \<noteq> target l"
proof -
  from link_is_selected [OF assms(5)]
  have i: "source l < length cs" and t: "target l \<in> set (selected fl K cs (source l))"
    by simp_all
  from own_entry_not_selected [OF assms(1,2) i assms(3)] assms(4) i
  have "source l \<notin> set (selected fl K cs (source l))"
    by simp
  with t show ?thesis by auto
qed

section \<open>Properties of the spatial join\<close>

lemma first_containing_None:
  "first_containing inside q polygons = None \<longleftrightarrow>
   (\<forall>poly \<in> set polygons. \<not> (valid_polygon poly \<and> inside q poly))"
  by (induction polygons) auto

lemma first_containing_Some:
  "first_containing inside q polygons = Some r \<longleftrightarrow>
   (\<exists>k < length polygons. valid_polygon (polygons ! k) \<and> inside q (polygons ! k) \<and>
      ident (polygons ! k) = r \<and>
      (\<forall>j < k. \<not> (valid_polygon (polygons ! j) \<and> inside q (polygons ! j))))"
proof (induction polygons)
  case Nil
  show ?case by simp
next
  case (Cons poly polygons)
  show ?case
  proof (cases "valid_polygon poly \<and> inside q poly")
    case True
    have "(\<exists>k < length (poly # polygons). valid_polygon ((poly # polygons) ! k) \<and>
        inside q ((poly # polygons) ! k) \<and> ident ((poly # polygons) ! k) = r \<and>
        (\<forall>j < k. \<not> (valid_polygon ((poly # polygons) ! j) \<and> inside q ((poly # polygons) ! j))))
      \<longleftrightarrow> ident poly = r" (is "?L \<longleftrightarrow> _")
    proof
      assume ?L
      then obtain k where k: "k < length (poly # polygons)"
        "ident ((poly # polygons) ! k) = r"
        "\<forall>j < k. \<not> (valid_polygon ((poly # polygons) ! j) \<and> inside q ((poly # polygons) ! j))"
        by blast
      have "k = 0"
      proof (rule ccontr)
        assume "k \<noteq> 0"
        then have "0 < k" by simp
        with k(3) True show False by auto
      qed
      with k(2) show "ident poly = r" by simp
    next
      assume "ident poly = r"
      with True show ?L by (intro exI [of _ 0]) simp
    qed
    with True show ?thesis by auto
  next
    case False
    have "(\<exists>k < length (poly # polygons). valid_polygon ((poly # polygons) ! k) \<and>
        inside q ((poly # polygons) ! k) \<and> ident ((poly # polygons) ! k) = r \<and>
        (\<forall>j < k. \<not> (valid_polygon ((poly # polygons) ! j) \<and> inside q ((poly # polygons) ! j))))
      \<longleftrightarrow>
      (\<exists>k < length polygons. valid_polygon (polygons ! k) \<and> inside q (polygons ! k) \<and>
        ident (polygons ! k) = r \<and>
        (\<forall>j < k. \<not> (valid_polygon (polygons ! j) \<and> inside q (polygons ! j))))"
      (is "?L \<longleftrightarrow> ?R")
    proof
      assume ?L
      then obtain k where k: "k < length (poly # polygons)"
        "valid_polygon ((poly # polygons) ! k)" "inside q ((poly # polygons) ! k)"
        "ident ((poly # polygons) ! k) = r"
        "\<forall>j < k. \<not> (valid_polygon ((poly # polygons) ! j) \<and> inside q ((poly # polygons) ! j))"
        by blast
      with False obtain k' where k': "k = Suc k'" by (cases k) auto
      have "\<forall>j < k'. \<not> (valid_polygon (polygons ! j) \<and> inside q (polygons ! j))"
      proof (intro allI impI)
        fix j assume "j < k'"
        then have "Suc j < k" using k' by simp
        with k(5) show "\<not> (valid_polygon (polygons ! j) \<and> inside q (polygons ! j))"
          by fastforce
      qed
      with k k' show ?R by (intro exI [of _ k']) simp
    next
      assume ?R
      then obtain k where k: "k < length polygons"
        "valid_polygon (polygons ! k)" "inside q (polygons ! k)" "ident (polygons ! k) = r"
        "\<forall>j < k. \<not> (valid_polygon (polygons ! j) \<and> inside q (polygons ! j))"
        by blast
      have "\<forall>j < Suc k. \<not> (valid_polygon ((poly # polygons) ! j) \<and> inside q ((poly # polygons) ! j))"
      proof (intro allI impI)
        fix j assume "j < Suc k"
        with False k(5) show "\<not> (valid_polygon ((poly # polygons) ! j) \<and> inside q ((poly # polygons) ! j))"
          by (cases j) auto
      qed
      with k show ?L by (intro exI [of _ "Suc k"]) simp
    qed
    moreover from False
    have "first_containing inside q (poly # polygons) = first_containing inside q polygons"
      by auto
    ultimately show ?thesis by (simp only: Cons.IH)
  qed
qed

text \<open>
  C4.  A point receives no identifier exactly when no valid polygon contains its
  projection; it receives the identifier \<open>r\<close> exactly when \<open>r\<close> is the identifier of the
  first valid polygon, in input order, that contains its projection; and when the valid
  polygons do not overlap at the point, the point receives the identifier of the polygon
  that contains it.
\<close>

theorem assigned_region_contains_point:
  "(regionId (assignRegion project inside polygons pt) = None \<longleftrightarrow>
      (\<forall>poly \<in> set polygons. valid_polygon poly \<longrightarrow> \<not> inside (project (coordinate pt)) poly)) \<and>
   (\<forall>r. regionId (assignRegion project inside polygons pt) = Some r \<longleftrightarrow>
      (\<exists>k < length polygons. valid_polygon (polygons ! k) \<and>
         inside (project (coordinate pt)) (polygons ! k) \<and> ident (polygons ! k) = r \<and>
         (\<forall>j < k. \<not> (valid_polygon (polygons ! j) \<and> inside (project (coordinate pt)) (polygons ! j))))) \<and>
   ((\<forall>a \<in> set polygons. \<forall>b \<in> set polygons.
        valid_polygon a \<and> valid_polygon b \<and> inside (project (coordinate pt)) a \<and>
        inside (project (coordinate pt)) b \<longrightarrow> a = b) \<longrightarrow>
    (\<forall>poly \<in> set polygons. valid_polygon poly \<and> inside (project (coordinate pt)) poly \<longrightarrow>
       regionId (assignRegion project inside polygons pt) = Some (ident poly)))"
proof (intro conjI allI impI ballI)
  show "regionId (assignRegion project inside polygons pt) = None \<longleftrightarrow>
      (\<forall>poly \<in> set polygons. valid_polygon poly \<longrightarrow> \<not> inside (project (coordinate pt)) poly)"
    by (auto simp: assignRegion_def first_containing_None)
next
  fix r
  show "regionId (assignRegion project inside polygons pt) = Some r \<longleftrightarrow>
      (\<exists>k < length polygons. valid_polygon (polygons ! k) \<and>
         inside (project (coordinate pt)) (polygons ! k) \<and> ident (polygons ! k) = r \<and>
         (\<forall>j < k. \<not> (valid_polygon (polygons ! j) \<and> inside (project (coordinate pt)) (polygons ! j))))"
    by (simp add: assignRegion_def first_containing_Some)
next
  fix poly
  assume single: "\<forall>a \<in> set polygons. \<forall>b \<in> set polygons.
        valid_polygon a \<and> valid_polygon b \<and> inside (project (coordinate pt)) a \<and>
        inside (project (coordinate pt)) b \<longrightarrow> a = b"
    and poly: "poly \<in> set polygons" "valid_polygon poly \<and> inside (project (coordinate pt)) poly"
  then have "first_containing inside (project (coordinate pt)) polygons \<noteq> None"
    by (auto simp: first_containing_None)
  then obtain r where r: "first_containing inside (project (coordinate pt)) polygons = Some r"
    by auto
  then obtain k where k: "k < length polygons" "valid_polygon (polygons ! k)"
    "inside (project (coordinate pt)) (polygons ! k)" "ident (polygons ! k) = r"
    unfolding first_containing_Some by blast
  from k(1) have "polygons ! k \<in> set polygons" by simp
  with single poly k(2,3) have "polygons ! k = poly" by blast
  with r k(4) show "regionId (assignRegion project inside polygons pt) = Some (ident poly)"
    by (simp add: assignRegion_def)
qed

theorem assigned_region_contains_point_witness:
  "regionId (assignRegion (\<lambda>c. c) in_box
      [\<lparr>ident = [], rings = (0, 0, 4, 4)\<rparr>, \<lparr>ident = ''A'', rings = (0, 0, 2, 2)\<rparr>,
       \<lparr>ident = ''B'', rings = (2, 0, 4, 2)\<rparr>]
      \<lparr>coordinate = (3, 1), metadata = (), regionId = None\<rparr>) = Some ''B'' \<and>
   regionId (assignRegion (\<lambda>c. c) in_box
      [\<lparr>ident = [], rings = (0, 0, 4, 4)\<rparr>, \<lparr>ident = ''A'', rings = (0, 0, 2, 2)\<rparr>,
       \<lparr>ident = ''B'', rings = (2, 0, 4, 2)\<rparr>]
      \<lparr>coordinate = (3, 3), metadata = (), regionId = None\<rparr>) = None"
  using assigned_region_contains_point
    [of "\<lambda>c. c" in_box
      "[\<lparr>ident = [], rings = (0, 0, 4, 4)\<rparr>, \<lparr>ident = ''A'', rings = (0, 0, 2, 2)\<rparr>,
        \<lparr>ident = ''B'', rings = (2, 0, 4, 2)\<rparr>]"
      "\<lparr>coordinate = (3, 1), metadata = (), regionId = None\<rparr>"]
  by (simp add: assignRegion_def in_box_def valid_polygon_def)

end
